theory Spec2Isabelle
  imports Complex_Main "HOL-Library.Multiset"
begin

section \<open>Proxy pool (proxy\_extension.py, class ProxyManager)\<close>

text \<open>
  Python exceptions that the modelled code can raise implicitly: a dictionary lookup
  with a missing key, indexing an empty list, and a modulus of zero.
\<close>

datatype error = KeyError string | IndexError | ZeroDivisionError

text \<open>
  One value of the dictionary \<open>proxy_stats\<close>:
  \<^verbatim>\<open>{"success": 0, "failures": 0, "last_used": 0}\<close>.
  The two counters start at 0 and are only ever incremented, so they are naturals;
  \<open>last_used\<close> is a reading of \<^verbatim>\<open>time.time()\<close> in seconds. Quotients and
  time differences are computed in exact arithmetic (type \<open>real\<close>).
\<close>

record proxy_stat =
  success :: nat
  failures :: nat
  last_used :: real

record proxy_manager =
  proxies :: "string list"
  current_index :: nat
  failed_proxies :: "string set"
  proxy_stats :: "string \<rightharpoonup> proxy_stat"

definition new_stat :: proxy_stat where
  "new_stat = \<lparr>success = 0, failures = 0, last_used = 0\<rparr>"

text \<open>\<^verbatim>\<open>ProxyManager.__init__\<close>: every listed address gets fresh statistics.\<close>

definition ProxyManager_init :: "string list \<Rightarrow> proxy_manager" where
  "ProxyManager_init proxy_list =
     \<lparr>proxies = proxy_list, current_index = 0, failed_proxies = {},
      proxy_stats = (\<lambda>p. if p \<in> set proxy_list then Some new_stat else None)\<rparr>"

text \<open>\<^verbatim>\<open>add_proxies\<close>: the loop over the new addresses, skipping known ones.\<close>

fun add_proxies :: "string list \<Rightarrow> proxy_manager \<Rightarrow> proxy_manager" where
  "add_proxies [] pm = pm"
| "add_proxies (proxy # rest) pm =
     add_proxies rest
       (if proxy \<in> set (proxies pm) then pm
        else pm\<lparr>proxies := proxies pm @ [proxy],
                proxy_stats := (proxy_stats pm)(proxy \<mapsto> new_stat)\<rparr>)"

text \<open>
  The nested function \<^verbatim>\<open>proxy_score\<close> of \<^verbatim>\<open>get_best_proxy\<close>. The argument
  \<open>now\<close> is the reading of \<^verbatim>\<open>time.time()\<close>; \<^verbatim>\<open>self.proxy_stats[proxy]\<close>
  raises \<open>KeyError\<close> for an address without statistics.
\<close>

definition proxy_score :: "real \<Rightarrow> (string \<rightharpoonup> proxy_stat) \<Rightarrow> string \<Rightarrow> error + real" where
  "proxy_score now stats proxy =
     (case stats proxy of
        None \<Rightarrow> Inl (KeyError proxy)
      | Some st \<Rightarrow>
          (let total_requests = success st + failures st in
           if total_requests = 0 then Inr 1
           else
             (let success_rate = real (success st) / real total_requests;
                  time_penalty = (now - last_used st) / 3600
              in Inr (success_rate + time_penalty * (1 / 10)))))"

text \<open>
  \<^verbatim>\<open>list.sort(key=proxy_score, reverse=True)\<close> first computes the key of every element,
  in list order (the first exception propagates and leaves the list as it was), then
  sorts stably in descending key order.
\<close>

fun score_all :: "real \<Rightarrow> (string \<rightharpoonup> proxy_stat) \<Rightarrow> string list \<Rightarrow> error + (string \<times> real) list" where
  "score_all now stats [] = Inr []"
| "score_all now stats (p # ps) =
     (case proxy_score now stats p of
        Inl e \<Rightarrow> Inl e
      | Inr k \<Rightarrow>
          (case score_all now stats ps of
             Inl e \<Rightarrow> Inl e
           | Inr ks \<Rightarrow> Inr ((p, k) # ks)))"

definition sort_reverse :: "(string \<times> real) list \<Rightarrow> string list" where
  "sort_reverse keyed = map fst (sort_key (\<lambda>pk. - snd pk) keyed)"

text \<open>
  \<^verbatim>\<open>get_best_proxy\<close>. The result is the returned value (or the exception raised) together
  with the manager after the call. When every proxy is in \<open>failed_proxies\<close> the set is
  emptied and \<^verbatim>\<open>available_proxies\<close> is the list object \<^verbatim>\<open>self.proxies\<close> itself, so
  the in-place sort then reorders the pool.
\<close>

definition get_best_proxy :: "real \<Rightarrow> proxy_manager \<Rightarrow> (error + string option) \<times> proxy_manager" where
  "get_best_proxy now pm =
     (if proxies pm = [] then (Inr None, pm)
      else
        (let available_proxies = filter (\<lambda>p. p \<notin> failed_proxies pm) (proxies pm);
             reset = (available_proxies = []);
             pm1 = (if reset then pm\<lparr>failed_proxies := {}\<rparr> else pm);
             available_proxies = (if reset then proxies pm else available_proxies)
         in case score_all now (proxy_stats pm) available_proxies of
              Inl e \<Rightarrow> (Inl e, pm1)
            | Inr keyed \<Rightarrow>
                (let sorted_proxies = sort_reverse keyed;
                     pm2 = (if reset then pm1\<lparr>proxies := sorted_proxies\<rparr> else pm1)
                 in case sorted_proxies of
                      [] \<Rightarrow> (Inl IndexError, pm2)
                    | best # _ \<Rightarrow> (Inr (Some best), pm2))))"

text \<open>\<^verbatim>\<open>mark_success\<close>; \<open>now\<close> is the reading of \<^verbatim>\<open>time.time()\<close>.\<close>

definition mark_success :: "real \<Rightarrow> string \<Rightarrow> proxy_manager \<Rightarrow> proxy_manager" where
  "mark_success now proxy pm =
     (case proxy_stats pm proxy of
        None \<Rightarrow> pm
      | Some st \<Rightarrow>
          pm\<lparr>proxy_stats := (proxy_stats pm)(proxy \<mapsto> st\<lparr>success := success st + 1, last_used := now\<rparr>),
             failed_proxies := failed_proxies pm - {proxy}\<rparr>)"

text \<open>
  The test of \<^verbatim>\<open>mark_failure\<close> on the updated counters:
  \<^verbatim>\<open>total = stats["success"] + stats["failures"]\<close>,
  \<^verbatim>\<open>total > 10 and stats["failures"] / total > 0.7\<close>.
\<close>

definition failure_rate_too_high :: "proxy_stat \<Rightarrow> bool" where
  "failure_rate_too_high stats \<longleftrightarrow>
     (let total = success stats + failures stats
      in total > 10 \<and> real (failures stats) / real total > 7 / 10)"

text \<open>\<^verbatim>\<open>mark_failure\<close>.\<close>

definition mark_failure :: "string \<Rightarrow> proxy_manager \<Rightarrow> proxy_manager" where
  "mark_failure proxy pm =
     (case proxy_stats pm proxy of
        None \<Rightarrow> pm
      | Some st \<Rightarrow>
          (let stats = st\<lparr>failures := failures st + 1\<rparr>;
               pm1 = pm\<lparr>proxy_stats := (proxy_stats pm)(proxy \<mapsto> stats)\<rparr>
           in if failure_rate_too_high stats
              then pm1\<lparr>failed_proxies := insert proxy (failed_proxies pm1)\<rparr>
              else pm1))"

text \<open>
  The pool invariant that \<^verbatim>\<open>__init__\<close> establishes and every method keeps: the
  addresses with statistics are exactly the addresses of the pool.
\<close>

definition pool_ok :: "proxy_manager \<Rightarrow> bool" where
  "pool_ok pm \<longleftrightarrow> dom (proxy_stats pm) = set (proxies pm)"

text \<open>
  A pool with one proxy that has 2 recorded successes and 7 recorded failures, used
  below as a concrete input.
\<close>

definition pool_2_7 :: proxy_manager where
  "pool_2_7 = \<lparr>proxies = [''p1''], current_index = 0, failed_proxies = {},
      proxy_stats = [''p1'' \<mapsto> \<lparr>success = 2, failures = 7, last_used = 100\<rparr>]\<rparr>"

text \<open>
  A pool with a freshly registered proxy and a proxy with 8 successes and 2 failures
  that was last used at time 1000.
\<close>

definition pool_fresh_old :: proxy_manager where
  "pool_fresh_old = \<lparr>proxies = [''fresh'', ''old''], current_index = 0, failed_proxies = {},
      proxy_stats = [''fresh'' \<mapsto> new_stat,
                     ''old'' \<mapsto> \<lparr>success = 8, failures = 2, last_used = 1000\<rparr>]\<rparr>"

text \<open>A pool whose two proxies are both quarantined.\<close>

definition pool_all_failed :: proxy_manager where
  "pool_all_failed = \<lparr>proxies = [''a'', ''b''], current_index = 0, failed_proxies = {''a'', ''b''},
      proxy_stats = [''a'' \<mapsto> \<lparr>success = 1, failures = 11, last_used = 50\<rparr>,
                     ''b'' \<mapsto> \<lparr>success = 3, failures = 9, last_used = 50\<rparr>]\<rparr>"

section \<open>Resilient fetcher (proxy\_extension.py, class ProxyRotatingRequests)\<close>

text \<open>
  What \<^verbatim>\<open>self.session.request(method, url, **kwargs)\<close> can do: return a response, or
  raise \<^verbatim>\<open>Timeout\<close>, \<^verbatim>\<open>ConnectionError\<close> or another exception.
\<close>

record response =
  status_code :: int
  content :: string

datatype outcome = Response response | Timeout | ConnectionError | OtherException

text \<open>The attributes set by \<^verbatim>\<open>ProxyRotatingRequests.__init__\<close>.\<close>

record proxy_client =
  max_retries :: nat
  retry_delay :: real
  timeout :: real

definition ProxyRotatingRequests_init :: proxy_client where
  "ProxyRotatingRequests_init = \<lparr>max_retries = 5, retry_delay = 2, timeout = 15\<rparr>"

text \<open>
  The state that \<^verbatim>\<open>request\<close> works on: the proxy manager, and two logs of its effects,
  the proxies through which a request was sent (one entry per attempt) and the
  arguments of \<^verbatim>\<open>time.sleep\<close>, both in order.
\<close>

record fetch_state =
  manager :: proxy_manager
  attempts :: "string list"
  slept :: "real list"

text \<open>
  The body of the \<^verbatim>\<open>try\<close> statement with its \<^verbatim>\<open>except\<close> clauses, for one attempt
  through \<open>proxy\<close>: \<open>Some response\<close> stands for \<^verbatim>\<open>return response, proxy\<close>,
  \<open>None\<close> for falling through to \<^verbatim>\<open>retries += 1\<close>.
\<close>

definition attempt :: "real \<Rightarrow> string \<Rightarrow> outcome \<Rightarrow> proxy_manager \<Rightarrow> response option \<times> proxy_manager" where
  "attempt now proxy out pm =
     (case out of
        Response response \<Rightarrow>
          if status_code response = 200 then (Some response, mark_success now proxy pm)
          else if status_code response \<in> {403, 429, 503, 502, 504} then (None, mark_failure proxy pm)
          else if status_code response = 404 then (Some response, mark_success now proxy pm)
          else (None, mark_failure proxy pm)
      | Timeout \<Rightarrow> (None, mark_failure proxy pm)
      | ConnectionError \<Rightarrow> (None, mark_failure proxy pm)
      | OtherException \<Rightarrow> (None, mark_failure proxy pm))"

text \<open>
  One iteration of the \<^verbatim>\<open>while\<close> loop, entered with \<open>retries < max_retries\<close>. The world
  is given by \<open>send\<close>, the outcome of the request sent in iteration \<open>retries\<close> through a
  proxy, and \<open>clock\<close>, the reading of \<^verbatim>\<open>time.time()\<close> in that iteration. The
  iteration either finishes the call (\<open>Inl\<close>: the returned pair or the exception raised,
  and the final state) or continues (\<open>Inr\<close>). An empty address is falsy in
  \<^verbatim>\<open>if not proxy\<close>, like \<^verbatim>\<open>None\<close>. After a failed attempt the counter is
  incremented and, if it is still below \<^verbatim>\<open>max_retries\<close>, the loop sleeps for
  \<^verbatim>\<open>min(self.retry_delay * (2 ** (retries - 1)), 30)\<close> seconds (\<open>backoff\<close>, applied to
  the incremented counter).
\<close>

definition backoff :: "proxy_client \<Rightarrow> nat \<Rightarrow> real list" where
  "backoff c retries =
     (if retries < max_retries c then [min (retry_delay c * 2 ^ (retries - 1)) 30] else [])"

type_synonym fetch_result = "error + (response option \<times> string option)"

definition loop_step ::
  "proxy_client \<Rightarrow> (nat \<Rightarrow> string \<Rightarrow> outcome) \<Rightarrow> (nat \<Rightarrow> real) \<Rightarrow> nat \<Rightarrow> fetch_state
     \<Rightarrow> (fetch_result \<times> fetch_state) + fetch_state" where
  "loop_step c send clock retries s =
     (case get_best_proxy (clock retries) (manager s) of
        (Inl e, pm) \<Rightarrow> Inl (Inl e, s\<lparr>manager := pm\<rparr>)
      | (Inr None, pm) \<Rightarrow> Inl (Inr (None, None), s\<lparr>manager := pm\<rparr>)
      | (Inr (Some proxy), pm) \<Rightarrow>
          if proxy = [] then Inl (Inr (None, None), s\<lparr>manager := pm\<rparr>)
          else
            (case attempt (clock retries) proxy (send retries proxy) pm of
               (Some response, pm') \<Rightarrow>
                 Inl (Inr (Some response, Some proxy),
                      s\<lparr>manager := pm', attempts := attempts s @ [proxy]\<rparr>)
             | (None, pm') \<Rightarrow>
                 Inr (s\<lparr>manager := pm', attempts := attempts s @ [proxy],
                         slept := slept s @ backoff c (retries + 1)\<rparr>)))"

function request_loop ::
  "proxy_client \<Rightarrow> (nat \<Rightarrow> string \<Rightarrow> outcome) \<Rightarrow> (nat \<Rightarrow> real) \<Rightarrow> nat \<Rightarrow> fetch_state
     \<Rightarrow> fetch_result \<times> fetch_state" where
  "request_loop c send clock retries s =
     (if retries < max_retries c then
        (case loop_step c send clock retries s of
           Inl done \<Rightarrow> done
         | Inr s' \<Rightarrow> request_loop c send clock (retries + 1) s')
      else (Inr (None, None), s))"
  by pat_completeness auto
termination
  by (relation "measure (\<lambda>(c, send, clock, retries, s). max_retries c - retries)") auto

text \<open>\<^verbatim>\<open>request\<close>: the loop entered with \<^verbatim>\<open>retries = 0\<close>.\<close>

definition request ::
  "proxy_client \<Rightarrow> (nat \<Rightarrow> string \<Rightarrow> outcome) \<Rightarrow> (nat \<Rightarrow> real) \<Rightarrow> fetch_state
     \<Rightarrow> fetch_result \<times> fetch_state" where
  "request c send clock s = request_loop c send clock 0 s"

text \<open>A pool is usable when it is non-empty, consistent and has no empty address.\<close>

definition usable :: "proxy_manager \<Rightarrow> bool" where
  "usable pm \<longleftrightarrow> proxies pm \<noteq> [] \<and> pool_ok pm \<and> [] \<notin> set (proxies pm)"

text \<open>Concrete inputs: a world where every request has the same outcome, and a start state.\<close>

definition send_const :: "outcome \<Rightarrow> nat \<Rightarrow> string \<Rightarrow> outcome" where
  "send_const out r p = out"

definition status_only :: "int \<Rightarrow> response" where
  "status_only code = \<lparr>status_code = code, content = []\<rparr>"

definition fetch_start :: fetch_state where
  "fetch_start = \<lparr>manager = pool_fresh_old, attempts = [], slept = []\<rparr>"

section \<open>Record store and ledger (pastebin\_comprehensive\_scraper.py)\<close>

text \<open>
  One element of \<^verbatim>\<open>onionLinks\<close>: the dictionary \<^verbatim>\<open>{"onionLink": link}\<close>, to which the
  enrichment layer may add a \<^verbatim>\<open>classification\<close>. One element of
  \<^verbatim>\<open>self.db["onion_links"]\<close>: the dictionary built by \<^verbatim>\<open>scrape_single_paste\<close>;
  \<^verbatim>\<open>pasteId\<close> is read with \<^verbatim>\<open>.get\<close>, so it may be absent.
\<close>

record link_entry =
  onionLink :: string
  classification :: "string option"

record entry =
  crawledTimeStamp :: string
  pasteDateTimestamp :: string
  sourcePasteUrl :: string
  sourcePasteTitle :: string
  onionLinks :: "link_entry list"
  pasteId :: "string option"

text \<open>The dictionary \<^verbatim>\<open>session_info\<close> appended to \<^verbatim>\<open>scan_sessions\<close>.\<close>

record session_info =
  start_time :: string
  strategy :: string
  end_time :: string
  session_processed :: nat
  session_found :: nat

text \<open>
  The scraper object together with the two files it owns. \<open>onion_links\<close> and
  \<open>scan_sessions\<close> are \<^verbatim>\<open>self.db\<close>; \<open>processed\<close>, \<open>found\<close> and \<open>errors\<close> are
  \<^verbatim>\<open>self.scan_progress\<close>; \<open>save_interval\<close> and
  \<open>rate_limit_delay\<close> are the configuration values read with \<^verbatim>\<open>config.get\<close>;
  \<open>db_file\<close> is the content of the file at \<^verbatim>\<open>db_path\<close> (\<open>None\<close>: no such file) and
  \<open>processed_file\<close> the lines of the ledger file. \<open>requests_log\<close> records every
  \<^verbatim>\<open>requests.get\<close> (the paste identifier it was made for, and the URL) and
  \<open>sleep_log\<close> every \<^verbatim>\<open>time.sleep\<close>, in order.
\<close>

record scraper =
  onion_links :: "entry list"
  scan_sessions :: "session_info list"
  processed_ids :: "string set"
  is_running :: bool
  processed :: nat
  found :: nat
  errors :: nat
  last_request_time :: real
  save_interval :: int
  rate_limit_delay :: real
  db_file :: "string option"
  processed_file :: "string list"
  requests_log :: "(string \<times> string) list"
  sleep_log :: "real list"

text \<open>
  How a call ends: it returns, it blocks forever (acquiring a lock that is held), it
  raises, or the process is killed during it. Each carries the state at that point.
\<close>

datatype 'st call = Returns 'st | Blocks 'st | Raises error 'st | Killed 'st

fun state_of :: "'st call \<Rightarrow> 'st" where
  "state_of (Returns s) = s"
| "state_of (Blocks s) = s"
| "state_of (Raises e s) = s"
| "state_of (Killed s) = s"

text \<open>
  What happens to the write in \<^verbatim>\<open>_save_db\<close>: it completes; \<^verbatim>\<open>open\<close> raises; the
  write raises after some characters reached the file; or the process is killed,
  before \<^verbatim>\<open>open\<close> or after some characters reached the file.
\<close>

datatype write_event =
  Completes | OpenFails | WriteFails nat | KilledBeforeOpen | KilledAfter nat

text \<open>
  \<^verbatim>\<open>_save_db\<close>. Its body runs inside \<^verbatim>\<open>with self.lock\<close>, and \<^verbatim>\<open>self.lock\<close> is a
  \<^verbatim>\<open>threading.Lock\<close>, which is not reentrant: \<open>lock_held\<close> tells whether the caller
  already holds it, and then the call blocks forever. \<open>dump\<close> is
  \<^verbatim>\<open>json.dump(self.db, f, indent=2)\<close>, the text written for the database.
  \<^verbatim>\<open>open(self.db_path, 'w')\<close> truncates the file, the text is then written to that
  same file, and every exception is caught and logged.
\<close>

definition save_db ::
  "(entry list \<Rightarrow> session_info list \<Rightarrow> string) \<Rightarrow> write_event \<Rightarrow> bool \<Rightarrow> scraper
     \<Rightarrow> scraper call" where
  "save_db dump ev lock_held s =
     (if lock_held then Blocks s
      else
        (let text_out = dump (onion_links s) (scan_sessions s)
         in case ev of
              Completes \<Rightarrow> Returns (s\<lparr>db_file := Some text_out\<rparr>)
            | OpenFails \<Rightarrow> Returns s
            | WriteFails k \<Rightarrow> Returns (s\<lparr>db_file := Some (take k text_out)\<rparr>)
            | KilledBeforeOpen \<Rightarrow> Killed s
            | KilledAfter k \<Rightarrow> Killed (s\<lparr>db_file := Some (take k text_out)\<rparr>)))"

text \<open>
  \<^verbatim>\<open>_save_processed_id\<close>; \<open>append_ok\<close> tells whether opening and appending to the
  ledger file succeeded (otherwise the exception is caught and logged).
\<close>

definition save_processed_id :: "bool \<Rightarrow> string \<Rightarrow> scraper \<Rightarrow> scraper" where
  "save_processed_id append_ok paste_id s =
     (if append_ok
      then s\<lparr>processed_file := processed_file s @ [paste_id],
             processed_ids := insert paste_id (processed_ids s)\<rparr>
      else s)"

text \<open>
  The \<^verbatim>\<open>for\<close> loop of \<^verbatim>\<open>add_entry\<close>: at the first stored entry with the same
  \<^verbatim>\<open>pasteId\<close> the new links are appended and the method returns (\<open>Some\<close>); \<open>None\<close>
  when the loop ends without a match.
\<close>

fun merge_existing :: "entry \<Rightarrow> entry list \<Rightarrow> entry list option" where
  "merge_existing entry [] = None"
| "merge_existing entry (existing # rest) =
     (if pasteId existing = pasteId entry then
        (let existing_links = map onionLink (onionLinks existing);
             new_links = filter (\<lambda>l. onionLink l \<notin> set existing_links) (onionLinks entry)
         in Some (existing\<lparr>onionLinks := onionLinks existing @ new_links\<rparr> # rest))
      else
        (case merge_existing entry rest of
           None \<Rightarrow> None
         | Some rest' \<Rightarrow> Some (existing # rest')))"

text \<open>
  \<^verbatim>\<open>add_entry\<close>; \<open>None\<close> stands for an argument that is \<^verbatim>\<open>None\<close> or empty. The
  whole body after the first test runs inside \<^verbatim>\<open>with self.lock\<close>; the periodic save
  calls \<^verbatim>\<open>_save_db\<close> there, with the lock held. \<^verbatim>\<open>len(...) % save_interval\<close> raises
  for a zero interval.
\<close>

definition add_entry ::
  "(entry list \<Rightarrow> session_info list \<Rightarrow> string) \<Rightarrow> write_event \<Rightarrow> entry option \<Rightarrow> scraper
     \<Rightarrow> scraper call" where
  "add_entry dump ev entry_opt s =
     (case entry_opt of
        None \<Rightarrow> Returns s
      | Some entry \<Rightarrow>
          (case merge_existing entry (onion_links s) of
             Some links' \<Rightarrow> Returns (s\<lparr>onion_links := links'\<rparr>)
           | None \<Rightarrow>
               (let s1 = s\<lparr>onion_links := onion_links s @ [entry]\<rparr>
                in if save_interval s1 = 0 then Raises ZeroDivisionError s1
                   else if int (length (onion_links s1)) mod save_interval s1 = 0
                   then save_db dump ev True s1
                   else Returns s1)))"

text \<open>
  The world of one call of \<^verbatim>\<open>scrape_single_paste\<close>: \<open>http_get\<close> is
  \<^verbatim>\<open>requests.get\<close> on a URL, \<open>findall\<close> is \<^verbatim>\<open>self.onion_pattern.findall\<close>,
  \<open>parse_metadata\<close> gives the title and the date that the \<^verbatim>\<open>BeautifulSoup\<close> block
  assigns (\<open>None\<close> where it assigns nothing, also because of an exception, which is
  caught), \<open>time_now\<close> and \<open>uniform_delay\<close> are \<^verbatim>\<open>time.time()\<close> and
  \<^verbatim>\<open>random.uniform\<close> in \<^verbatim>\<open>_rate_limit\<close>, \<open>date_now\<close> and \<open>crawl_now\<close> the two
  readings of \<^verbatim>\<open>datetime.now().isoformat()\<close>, and \<open>append_ok\<close> tells whether
  appending to the ledger file succeeds.
\<close>

record world =
  http_get :: "string \<Rightarrow> outcome"
  findall :: "string \<Rightarrow> string list"
  parse_metadata :: "string \<Rightarrow> string option \<times> string option"
  time_now :: real
  uniform_delay :: real
  date_now :: string
  crawl_now :: string
  append_ok :: bool

definition raw_url :: "string \<Rightarrow> string" where
  "raw_url paste_id = ''https://pastebin.com/raw/'' @ paste_id"

definition paste_url :: "string \<Rightarrow> string" where
  "paste_url paste_id = ''https://pastebin.com/'' @ paste_id"

text \<open>\<^verbatim>\<open>_rate_limit\<close>.\<close>

definition rate_limit :: "world \<Rightarrow> scraper \<Rightarrow> scraper" where
  "rate_limit w s =
     (let current_time = time_now w;
          time_since_last = current_time - last_request_time s;
          delay = uniform_delay w
      in if time_since_last < delay
         then s\<lparr>sleep_log := sleep_log s @ [delay - time_since_last],
                last_request_time := current_time + (delay - time_since_last)\<rparr>
         else s\<lparr>last_request_time := current_time\<rparr>)"

text \<open>
  \<^verbatim>\<open>extract_onion_links\<close>. \<^verbatim>\<open>list(set(links))\<close> keeps one copy of every link, in
  an order that Python does not specify; \<open>remdups\<close> fixes one such order.
\<close>

definition extract_onion_links :: "world \<Rightarrow> string \<Rightarrow> string list" where
  "extract_onion_links w text_in =
     remdups (map (\<lambda>link. if take 7 link = ''http://'' \<or> take 8 link = ''https://''
                           then link else ''http://'' @ link)
                  (findall w text_in))"

text \<open>\<^verbatim>\<open>scrape_single_paste\<close>: the returned value and the scraper after the call.\<close>

definition scrape_single_paste :: "world \<Rightarrow> string \<Rightarrow> scraper \<Rightarrow> entry option \<times> scraper" where
  "scrape_single_paste w paste_id s =
     (if paste_id \<in> processed_ids s then (None, s)
      else
        (let s1 = rate_limit w s;
             s2 = s1\<lparr>requests_log := requests_log s1 @ [(paste_id, raw_url paste_id)]\<rparr>
         in case http_get w (raw_url paste_id) of
              Response response \<Rightarrow>
                if status_code response = 404
                then (None, save_processed_id (append_ok w) paste_id s2)
                else if status_code response = 403
                then (None, s2\<lparr>sleep_log := sleep_log s2 @ [rate_limit_delay s2]\<rparr>)
                else if status_code response \<noteq> 200 then (None, s2)
                else
                  (let links = extract_onion_links w (content response)
                   in if links = [] then (None, save_processed_id (append_ok w) paste_id s2)
                      else
                        (let s3 = s2\<lparr>requests_log :=
                                       requests_log s2 @ [(paste_id, paste_url paste_id)]\<rparr>
                         in case http_get w (paste_url paste_id) of
                              Response meta_response \<Rightarrow>
                                (let parsed = (if status_code meta_response = 200
                                               then parse_metadata w (content meta_response)
                                               else (None, None));
                                     title = (case fst parsed of
                                                None \<Rightarrow> ''Paste '' @ paste_id | Some t \<Rightarrow> t);
                                     date_str = (case snd parsed of
                                                   None \<Rightarrow> date_now w | Some d \<Rightarrow> d);
                                     entry = \<lparr>crawledTimeStamp = crawl_now w,
                                              pasteDateTimestamp = date_str,
                                              sourcePasteUrl = paste_url paste_id,
                                              sourcePasteTitle = title,
                                              onionLinks = map (\<lambda>link. \<lparr>onionLink = link,
                                                classification = None\<rparr>) links,
                                              pasteId = Some paste_id\<rparr>;
                                     s4 = s3\<lparr>found := found s3 + length links\<rparr>
                                 in (Some entry, save_processed_id (append_ok w) paste_id s4))
                            | _ \<Rightarrow> (None, s3\<lparr>errors := errors s3 + 1\<rparr>)))
            | _ \<Rightarrow> (None, s2\<lparr>errors := errors s2 + 1\<rparr>)))"

text \<open>
  The body of the two processing loops of \<^verbatim>\<open>run_hybrid_scan\<close>:
  \<^verbatim>\<open>result = self.scrape_single_paste(paste_id)\<close>,
  \<^verbatim>\<open>if result: self.add_entry(result)\<close>,
  \<^verbatim>\<open>self.scan_progress["processed"] += 1\<close>.
\<close>

definition process_paste ::
  "(entry list \<Rightarrow> session_info list \<Rightarrow> string) \<Rightarrow> write_event \<Rightarrow> world \<Rightarrow> string \<Rightarrow> scraper
     \<Rightarrow> scraper call" where
  "process_paste dump ev w paste_id s =
     (case scrape_single_paste w paste_id s of
        (None, s1) \<Rightarrow> Returns (s1\<lparr>processed := processed s1 + 1\<rparr>)
      | (Some result, s1) \<Rightarrow>
          (case add_entry dump ev (Some result) s1 of
             Returns s2 \<Rightarrow> Returns (s2\<lparr>processed := processed s2 + 1\<rparr>)
           | other \<Rightarrow> other))"

text \<open>
  One scan pass over a batch of identifiers, as the loop over the search results in
  \<^verbatim>\<open>run_hybrid_scan\<close>: it stops when \<^verbatim>\<open>is_running\<close> is false, and each identifier
  meets its own world.
\<close>

fun process_all ::
  "(entry list \<Rightarrow> session_info list \<Rightarrow> string) \<Rightarrow> write_event \<Rightarrow> (world \<times> string) list \<Rightarrow> scraper
     \<Rightarrow> scraper call" where
  "process_all dump ev [] s = Returns s"
| "process_all dump ev ((w, paste_id) # rest) s =
     (if \<not> is_running s then Returns s
      else
        (case process_paste dump ev w paste_id s of
           Returns s' \<Rightarrow> process_all dump ev rest s'
         | other \<Rightarrow> other))"

text \<open>
  The scraper after \<^verbatim>\<open>__init__\<close> when neither file exists and the configuration is
  empty (so the defaults apply), and the same scraper during a run.
\<close>

definition new_scraper :: scraper where
  "new_scraper =
     \<lparr>onion_links = [], scan_sessions = [], processed_ids = {}, is_running = False,
      processed = 0, found = 0, errors = 0, last_request_time = 0,
      save_interval = 100, rate_limit_delay = 60, db_file = None, processed_file = [],
      requests_log = [], sleep_log = []\<rparr>"

definition running_scraper :: scraper where
  "running_scraper = new_scraper\<lparr>is_running := True\<rparr>"

text \<open>
  Two worlds: one where every paste is absent (status 404), and one where every raw
  paste holds one onion link and the metadata page gives no title and no date.
\<close>

definition world_absent :: world where
  "world_absent =
     \<lparr>http_get = (\<lambda>url. Response (status_only 404)), findall = (\<lambda>t. []),
      parse_metadata = (\<lambda>t. (None, None)), time_now = 10, uniform_delay = 1,
      date_now = ''d'', crawl_now = ''c'', append_ok = True\<rparr>"



text \<open>A stand-in for \<^verbatim>\<open>json.dump\<close> where the text written does not matter.\<close>

definition dump_nothing :: "entry list \<Rightarrow> session_info list \<Rightarrow> string" where
  "dump_nothing links sessions = []"

text \<open>
  Predicates on the store. \<open>keeps_record a b\<close>: record \<open>b\<close> is record \<open>a\<close> with links
  appended (every field and every link of \<open>a\<close> is still there, in place).
  \<open>store_extends db db'\<close>: the store \<open>db'\<close> keeps every record of \<open>db\<close>, in place.
  \<open>has_record\<close>: the store has a record for the identifier. \<open>all_have_links\<close>: every
  stored record has at least one link.
\<close>

definition keeps_record :: "entry \<Rightarrow> entry \<Rightarrow> bool" where
  "keeps_record a b \<longleftrightarrow>
     b\<lparr>onionLinks := onionLinks a\<rparr> = a \<and> take (length (onionLinks a)) (onionLinks b) = onionLinks a"




text \<open>
  Two records for the paste \<^verbatim>\<open>abc123\<close> with one link each, the links different.
\<close>

definition record_a :: entry where
  "record_a = \<lparr>crawledTimeStamp = ''c'', pasteDateTimestamp = ''d'',
      sourcePasteUrl = paste_url ''abc123'', sourcePasteTitle = ''Paste abc123'',
      onionLinks = [\<lparr>onionLink = ''http://aaaaaaaaaaaaaaaa.onion'', classification = None\<rparr>],
      pasteId = Some ''abc123''\<rparr>"

definition record_b :: entry where
  "record_b = record_a\<lparr>onionLinks :=
      [\<lparr>onionLink = ''http://bbbbbbbbbbbbbbbb.onion'', classification = None\<rparr>]\<rparr>"

text \<open>
  The text that \<^verbatim>\<open>json.dump(self.db, f, indent=2)\<close> writes for the empty database
  \<^verbatim>\<open>{"onion_links": [], "metadata": {"scan_sessions": []}}\<close>, and \<^verbatim>\<open>json.dump\<close> at
  that database.
\<close>

definition json_empty_db :: string where
  "json_empty_db =
     ''{'' @ [CHR 0x0A] @
     ''  '' @ [CHR 0x22] @ ''onion_links'' @ [CHR 0x22] @ '': [],'' @ [CHR 0x0A] @
     ''  '' @ [CHR 0x22] @ ''metadata'' @ [CHR 0x22] @ '': {'' @ [CHR 0x0A] @
     ''    '' @ [CHR 0x22] @ ''scan_sessions'' @ [CHR 0x22] @ '': []'' @ [CHR 0x0A] @
     ''  }'' @ [CHR 0x0A] @
     ''}''"

definition dump_empty :: "entry list \<Rightarrow> session_info list \<Rightarrow> string" where
  "dump_empty links sessions = json_empty_db"

text \<open>
  The data-model invariant of the store: link values are unique within a record, and
  there is one record per identifier.
\<close>

definition links_unique :: "entry \<Rightarrow> bool" where
  "links_unique e \<longleftrightarrow> distinct (map onionLink (onionLinks e))"

definition store_ok :: "entry list \<Rightarrow> bool" where
  "store_ok db \<longleftrightarrow> distinct (map pasteId db) \<and> list_all links_unique db"

text \<open>A store of 99 records for 99 other pastes.\<close>

definition store_99 :: "entry list" where
  "store_99 = map (\<lambda>n. record_b\<lparr>pasteId := Some (replicate (Suc n) CHR ''x'')\<rparr>) [0..<99]"

section \<open>Properties of the proxy pool\<close>

lemma mark_failure_stats:
  "proxy_stats pm proxy = Some st \<Longrightarrow>
   proxy_stats (mark_failure proxy pm) = (proxy_stats pm)(proxy \<mapsto> st\<lparr>failures := failures st + 1\<rparr>)"
  by (simp add: mark_failure_def Let_def)

lemma mark_failure_failed:
  "proxy_stats pm proxy = Some st \<Longrightarrow>
   failed_proxies (mark_failure proxy pm) =
     (if failure_rate_too_high (st\<lparr>failures := failures st + 1\<rparr>)
      then insert proxy (failed_proxies pm) else failed_proxies pm)"
  by (simp add: mark_failure_def Let_def)

lemma mark_failure_proxies: "proxies (mark_failure proxy pm) = proxies pm"
  by (simp add: mark_failure_def Let_def split: option.splits)

lemma mark_success_proxies: "proxies (mark_success now proxy pm) = proxies pm"
  by (simp add: mark_success_def split: option.splits)

lemma mark_failure_dom: "dom (proxy_stats (mark_failure proxy pm)) = dom (proxy_stats pm)"
  by (auto simp add: mark_failure_def Let_def split: option.splits if_splits)

lemma mark_success_dom: "dom (proxy_stats (mark_success now proxy pm)) = dom (proxy_stats pm)"
  by (auto simp add: mark_success_def split: option.splits if_splits)

lemma pool_2_7_after_one:
  "mark_failure ''p1'' pool_2_7 =
     pool_2_7\<lparr>proxy_stats := [''p1'' \<mapsto> \<lparr>success = 2, failures = 8, last_used = 100\<rparr>]\<rparr>"
  by (simp add: pool_2_7_def mark_failure_def failure_rate_too_high_def Let_def)

text \<open>
  Claim C3, as the code has it. The claim puts the threshold at a total of at least 10
  attempts; \<^verbatim>\<open>mark_failure\<close> tests \<^verbatim>\<open>total > 10\<close>. For a registered proxy that
  is not quarantined, a failure report increments its failure counter and quarantines it
  exactly when, on the updated counters, the total is greater than 10 and the failure
  rate exceeds 0.7; the quarantine status of every other address is unchanged.
\<close>

theorem mark_failure_quarantine:
  assumes "proxy_stats pm proxy = Some st" and "proxy \<notin> failed_proxies pm"
  shows "proxy_stats (mark_failure proxy pm) proxy = Some (st\<lparr>failures := failures st + 1\<rparr>) \<and>
         (proxy \<in> failed_proxies (mark_failure proxy pm) \<longleftrightarrow>
            success st + (failures st + 1) > 10 \<and>
            real (failures st + 1) / real (success st + (failures st + 1)) > 7 / 10) \<and>
         failed_proxies (mark_failure proxy pm) - {proxy} = failed_proxies pm"
proof -
  let ?st = "st\<lparr>failures := failures st + 1\<rparr>"
  have 1: "proxy_stats (mark_failure proxy pm) proxy = Some ?st"
    using assms(1) by (simp add: mark_failure_stats)
  have 2: "proxy \<in> failed_proxies (mark_failure proxy pm) \<longleftrightarrow> failure_rate_too_high ?st"
    using assms by (simp add: mark_failure_failed)
  have 3: "failed_proxies (mark_failure proxy pm) - {proxy} = failed_proxies pm"
    using assms by (auto simp add: mark_failure_failed)
  have 4: "failure_rate_too_high ?st \<longleftrightarrow>
      success st + (failures st + 1) > 10 \<and>
      real (failures st + 1) / real (success st + (failures st + 1)) > 7 / 10"
    unfolding failure_rate_too_high_def Let_def by simp
  from 1 2 3 4 show ?thesis by blast
qed

text \<open>
  The theorem at a concrete pool: after the 10th attempt (2 successes, 8 failures) the
  proxy is not quarantined, after the 11th (2 successes, 9 failures) it is.
\<close>

theorem mark_failure_quarantine_witness:
  "''p1'' \<notin> failed_proxies (mark_failure ''p1'' pool_2_7) \<and>
   ''p1'' \<in> failed_proxies (mark_failure ''p1'' (mark_failure ''p1'' pool_2_7))"
proof -
  let ?pm = "mark_failure ''p1'' pool_2_7"
  have c: "proxy_stats ?pm ''p1'' = Some \<lparr>success = 2, failures = 8, last_used = 100\<rparr>"
    unfolding pool_2_7_after_one by (simp add: pool_2_7_def)
  have d: "''p1'' \<notin> failed_proxies ?pm"
    unfolding pool_2_7_after_one by (simp add: pool_2_7_def)
  have "''p1'' \<in> failed_proxies (mark_failure ''p1'' ?pm) \<longleftrightarrow>
          success \<lparr>success = 2, failures = 8, last_used = 100\<rparr> +
            (failures \<lparr>success = 2, failures = 8, last_used = 100\<rparr> + 1) > 10 \<and>
          real (failures \<lparr>success = 2, failures = 8, last_used = 100\<rparr> + 1) /
            real (success \<lparr>success = 2, failures = 8, last_used = 100\<rparr> +
              (failures \<lparr>success = 2, failures = 8, last_used = 100\<rparr> + 1)) > 7 / 10"
    using mark_failure_quarantine [OF c d] by (rule conjunct1 [OF conjunct2])
  then have "''p1'' \<in> failed_proxies (mark_failure ''p1'' ?pm)"
    by simp
  with d show ?thesis by simp
qed

text \<open>
  Claim C3 as stated fails at a total of exactly 10: a proxy with 2 successes and 7
  failures receives a failure report; afterwards its total is 10 (at least 10) and its
  failure rate is 8/10 (above 0.7), and it is not quarantined.
\<close>

theorem mark_failure_at_ten_counterexample:
  "proxy_stats (mark_failure ''p1'' pool_2_7) ''p1'' =
     Some \<lparr>success = 2, failures = 8, last_used = 100\<rparr> \<and>
   (2::nat) + 8 \<ge> 10 \<and> real 8 / real (2 + 8) > 7 / 10 \<and>
   ''p1'' \<notin> failed_proxies (mark_failure ''p1'' pool_2_7)"
  by (simp add: pool_2_7_def mark_failure_def failure_rate_too_high_def Let_def)

text \<open>
  Claim C10. \<^verbatim>\<open>mark_success\<close> and \<^verbatim>\<open>mark_failure\<close> test
  \<^verbatim>\<open>proxy in self.proxy_stats\<close>; for an address without statistics (which, in a pool
  built by the constructor and \<^verbatim>\<open>add_proxies\<close>, is an address that is not in the
  proxy list) both return the manager unchanged: proxy list, statistics and quarantine
  set are the same, and no exception is raised (the functions have no error result).
\<close>

theorem mark_unregistered_unchanged:
  assumes "proxy \<notin> dom (proxy_stats pm) \<or> (pool_ok pm \<and> proxy \<notin> set (proxies pm))"
  shows "mark_success now proxy pm = pm \<and> mark_failure proxy pm = pm"
proof -
  from assms have "proxy_stats pm proxy = None"
    by (auto simp add: pool_ok_def)
  then show ?thesis
    by (simp add: mark_success_def mark_failure_def)
qed

theorem mark_unregistered_unchanged_witness:
  "mark_success 5 ''p2'' pool_2_7 = pool_2_7 \<and> mark_failure ''p2'' pool_2_7 = pool_2_7"
proof -
  have "''p2'' \<notin> dom (proxy_stats pool_2_7)" by (simp add: pool_2_7_def)
  then show ?thesis using mark_unregistered_unchanged [of "''p2''" pool_2_7 5] by blast
qed

lemma proxy_score_registered:
  "stats p = Some st \<Longrightarrow> \<exists>k. proxy_score now stats p = Inr k"
  by (simp add: proxy_score_def Let_def)

lemma score_all_ok:
  "set ps \<subseteq> dom stats \<Longrightarrow> \<exists>keyed. score_all now stats ps = Inr keyed \<and> map fst keyed = ps"
proof (induction ps)
  case Nil
  then show ?case by simp
next
  case (Cons p ps)
  then obtain st where "stats p = Some st" by auto
  then obtain k where k: "proxy_score now stats p = Inr k"
    using proxy_score_registered by blast
  from Cons obtain keyed where "score_all now stats ps = Inr keyed" "map fst keyed = ps"
    by auto
  with k show ?case by simp
qed

lemma sort_reverse_mset: "mset (sort_reverse keyed) = mset (map fst keyed)"
  by (simp add: sort_reverse_def)

lemma sort_reverse_set: "set (sort_reverse keyed) = set (map fst keyed)"
  using sort_reverse_mset by (metis set_mset_mset)

lemma sort_reverse_Nil: "sort_reverse keyed = [] \<longleftrightarrow> keyed = []"
proof -
  have "length (sort_reverse keyed) = length keyed"
    by (simp add: sort_reverse_def)
  then show ?thesis by (metis length_0_conv)
qed

lemma get_best_proxy_empty: "proxies pm = [] \<Longrightarrow> get_best_proxy now pm = (Inr None, pm)"
  by (simp add: get_best_proxy_def)

lemma get_best_proxy_not_None:
  "proxies pm \<noteq> [] \<Longrightarrow> fst (get_best_proxy now pm) \<noteq> Inr None"
  by (simp add: get_best_proxy_def Let_def split: sum.splits list.splits)

lemma get_best_proxy_available:
  assumes "filter (\<lambda>p. p \<notin> failed_proxies pm) (proxies pm) \<noteq> []"
    and "set (proxies pm) \<subseteq> dom (proxy_stats pm)"
  shows "\<exists>best. get_best_proxy now pm = (Inr (Some best), pm) \<and>
           best \<in> set (proxies pm) \<and> best \<notin> failed_proxies pm"
proof -
  let ?av = "filter (\<lambda>p. p \<notin> failed_proxies pm) (proxies pm)"
  have ne: "proxies pm \<noteq> []" using assms(1) by auto
  have "set ?av \<subseteq> dom (proxy_stats pm)" using assms(2) by auto
  then obtain keyed where k: "score_all now (proxy_stats pm) ?av = Inr keyed" "map fst keyed = ?av"
    using score_all_ok by blast
  then have "sort_reverse keyed \<noteq> []" using assms(1) by (auto simp add: sort_reverse_Nil)
  then obtain best rest where s: "sort_reverse keyed = best # rest"
    by (cases "sort_reverse keyed") auto
  have "best \<in> set ?av"
    using s k(2) sort_reverse_set [of keyed] by (metis list.set_intros(1))
  moreover have "get_best_proxy now pm = (Inr (Some best), pm)"
    using ne assms(1) k(1) s by (simp add: get_best_proxy_def Let_def)
  ultimately show ?thesis by auto
qed

lemma get_best_proxy_reset:
  assumes "proxies pm \<noteq> []"
    and "filter (\<lambda>p. p \<notin> failed_proxies pm) (proxies pm) = []"
    and "set (proxies pm) \<subseteq> dom (proxy_stats pm)"
  shows "\<exists>best sorted_proxies. get_best_proxy now pm =
            (Inr (Some best), pm\<lparr>failed_proxies := {}, proxies := sorted_proxies\<rparr>) \<and>
           best \<in> set (proxies pm) \<and> mset sorted_proxies = mset (proxies pm)"
proof -
  obtain keyed where k: "score_all now (proxy_stats pm) (proxies pm) = Inr keyed"
      "map fst keyed = proxies pm"
    using score_all_ok assms(3) by blast
  then have "sort_reverse keyed \<noteq> []" using assms(1) by (auto simp add: sort_reverse_Nil)
  then obtain best rest where s: "sort_reverse keyed = best # rest"
    by (cases "sort_reverse keyed") auto
  have "best \<in> set (proxies pm)"
    using s k(2) sort_reverse_set [of keyed] by (metis list.set_intros(1))
  moreover have "get_best_proxy now pm =
      (Inr (Some best), pm\<lparr>failed_proxies := {}, proxies := sort_reverse keyed\<rparr>)"
    using assms(1,2) k(1) s by (simp add: get_best_proxy_def Let_def)
  moreover have "mset (sort_reverse keyed) = mset (proxies pm)"
    using k(2) by (simp add: sort_reverse_mset)
  ultimately show ?thesis by blast
qed

text \<open>
  The pool invariant holds after the constructor and is kept by every method.
\<close>

lemma pool_ok_init: "pool_ok (ProxyManager_init proxy_list)"
  by (auto simp add: pool_ok_def ProxyManager_init_def dom_def)

lemma pool_ok_add_proxies: "pool_ok pm \<Longrightarrow> pool_ok (add_proxies proxy_list pm)"
proof (induction proxy_list arbitrary: pm)
  case Nil
  then show ?case by simp
next
  case (Cons proxy rest)
  have "pool_ok (if proxy \<in> set (proxies pm) then pm
        else pm\<lparr>proxies := proxies pm @ [proxy],
                proxy_stats := (proxy_stats pm)(proxy \<mapsto> new_stat)\<rparr>)"
    using Cons.prems by (auto simp add: pool_ok_def)
  then show ?case using Cons.IH by simp
qed

lemma pool_ok_mark:
  "pool_ok pm \<Longrightarrow> pool_ok (mark_success now proxy pm) \<and> pool_ok (mark_failure proxy pm)"
  by (simp add: pool_ok_def mark_success_dom mark_success_proxies mark_failure_dom
      mark_failure_proxies)

lemma pool_ok_get_best_proxy:
  assumes "pool_ok pm"
  shows "pool_ok (snd (get_best_proxy now pm))"
proof (cases "proxies pm = []")
  case True
  with assms show ?thesis by (simp add: get_best_proxy_empty)
next
  case False
  have sub: "set (proxies pm) \<subseteq> dom (proxy_stats pm)" using assms by (simp add: pool_ok_def)
  show ?thesis
  proof (cases "filter (\<lambda>p. p \<notin> failed_proxies pm) (proxies pm) = []")
    case True
    from get_best_proxy_reset [OF False True sub, of now] obtain best sorted_proxies where
      b: "get_best_proxy now pm = (Inr (Some best), pm\<lparr>failed_proxies := {}, proxies := sorted_proxies\<rparr>)"
        "mset sorted_proxies = mset (proxies pm)"
      by blast
    from b(2) have "set sorted_proxies = set (proxies pm)" by (metis set_mset_mset)
    with b(1) assms show ?thesis by (simp add: pool_ok_def)
  next
    case False
    from get_best_proxy_available [OF False sub, of now] assms show ?thesis by auto
  qed
qed

text \<open>
  Claim C4. \<^verbatim>\<open>get_best_proxy\<close> returns \<^verbatim>\<open>None\<close> exactly when the proxy list is
  empty. For a non-empty pool (with statistics for every listed address, as the
  constructor and \<^verbatim>\<open>add_proxies\<close> guarantee) it returns one of the pool's proxies:
  when every proxy is quarantined the quarantine set is emptied first; otherwise the
  returned proxy is not quarantined and the manager is unchanged.
\<close>

theorem get_best_proxy_never_none:
  "(fst (get_best_proxy now pm) = Inr None \<longleftrightarrow> proxies pm = []) \<and>
   (proxies pm \<noteq> [] \<and> pool_ok pm \<longrightarrow>
     (\<exists>best. fst (get_best_proxy now pm) = Inr (Some best) \<and> best \<in> set (proxies pm) \<and>
        (if set (proxies pm) \<subseteq> failed_proxies pm
         then failed_proxies (snd (get_best_proxy now pm)) = {}
         else best \<notin> failed_proxies pm \<and> snd (get_best_proxy now pm) = pm)))"
proof (intro conjI impI)
  show "fst (get_best_proxy now pm) = Inr None \<longleftrightarrow> proxies pm = []"
    using get_best_proxy_empty [of pm now] get_best_proxy_not_None [of pm now] by auto
next
  assume a: "proxies pm \<noteq> [] \<and> pool_ok pm"
  then have sub: "set (proxies pm) \<subseteq> dom (proxy_stats pm)" by (simp add: pool_ok_def)
  show "\<exists>best. fst (get_best_proxy now pm) = Inr (Some best) \<and> best \<in> set (proxies pm) \<and>
        (if set (proxies pm) \<subseteq> failed_proxies pm
         then failed_proxies (snd (get_best_proxy now pm)) = {}
         else best \<notin> failed_proxies pm \<and> snd (get_best_proxy now pm) = pm)"
  proof (cases "set (proxies pm) \<subseteq> failed_proxies pm")
    case True
    then have "filter (\<lambda>p. p \<notin> failed_proxies pm) (proxies pm) = []"
      by (auto simp add: filter_empty_conv)
    with a sub obtain best sorted_proxies where
      "get_best_proxy now pm = (Inr (Some best), pm\<lparr>failed_proxies := {}, proxies := sorted_proxies\<rparr>)"
      "best \<in> set (proxies pm)"
      using get_best_proxy_reset [of pm now] by blast
    with True show ?thesis by simp
  next
    case False
    then have "filter (\<lambda>p. p \<notin> failed_proxies pm) (proxies pm) \<noteq> []"
      by (auto simp add: filter_empty_conv)
    with sub obtain best where
      "get_best_proxy now pm = (Inr (Some best), pm)"
      "best \<in> set (proxies pm)" "best \<notin> failed_proxies pm"
      using get_best_proxy_available [of pm now] by blast
    with False show ?thesis by simp
  qed
qed

lemma pool_all_failed_best:
  "get_best_proxy 100 pool_all_failed =
     (Inr (Some ''b''), pool_all_failed\<lparr>failed_proxies := {}, proxies := [''b'', ''a'']\<rparr>)"
  by (simp add: get_best_proxy_def pool_all_failed_def proxy_score_def sort_reverse_def Let_def)

theorem get_best_proxy_never_none_witness:
  "proxies pool_all_failed \<noteq> [] \<and> pool_ok pool_all_failed \<and>
   set (proxies pool_all_failed) \<subseteq> failed_proxies pool_all_failed \<and>
   fst (get_best_proxy 100 pool_all_failed) = Inr (Some ''b'') \<and>
   failed_proxies (snd (get_best_proxy 100 pool_all_failed)) = {}"
proof -
  have h: "proxies pool_all_failed \<noteq> [] \<and> pool_ok pool_all_failed"
    by (auto simp add: pool_all_failed_def pool_ok_def)
  have f: "set (proxies pool_all_failed) \<subseteq> failed_proxies pool_all_failed"
    by (simp add: pool_all_failed_def)
  have "failed_proxies (snd (get_best_proxy 100 pool_all_failed)) = {}"
    using get_best_proxy_never_none [of 100 pool_all_failed] h f by auto
  then show ?thesis using h f by (simp add: pool_all_failed_best)
qed

text \<open>
  Claim C8, as the code has it. A proxy without recorded requests scores 1; a proxy with
  8 successes and 2 failures scores 0.8 plus 0.1 for every hour since it was last used.
  So the fresh proxy's score is greater than or equal to the experienced proxy's score
  exactly when the experienced proxy was last used at most 7200 seconds before the
  selection.
\<close>

theorem fresh_score_rested:
  assumes "stats fresh = Some sf" "success sf = 0" "failures sf = 0"
    and "stats old = Some so" "success so = 8" "failures so = 2"
  shows "proxy_score now stats fresh = Inr 1 \<and>
         proxy_score now stats old = Inr (8 / 10 + (now - last_used so) / 3600 * (1 / 10)) \<and>
         (8 / 10 + (now - last_used so) / 3600 * (1 / 10) \<le> 1 \<longleftrightarrow> now - last_used so \<le> 7200)"
proof -
  have 1: "proxy_score now stats fresh = Inr 1"
    using assms(1-3) by (simp add: proxy_score_def Let_def)
  have 2: "proxy_score now stats old = Inr (8 / 10 + (now - last_used so) / 3600 * (1 / 10))"
    using assms(4-6) by (simp add: proxy_score_def Let_def)
  have 3: "8 / 10 + (now - last_used so) / 3600 * (1 / 10) \<le> 1 \<longleftrightarrow> now - last_used so \<le> 7200"
    by (simp add: field_simps)
  from 1 2 3 show ?thesis by blast
qed

theorem fresh_score_rested_witness:
  "proxy_score 4600 (proxy_stats pool_fresh_old) ''fresh'' = Inr 1 \<and>
   proxy_score 4600 (proxy_stats pool_fresh_old) ''old'' = Inr (9 / 10)"
  using fresh_score_rested [of "proxy_stats pool_fresh_old" "''fresh''" new_stat "''old''"
      "\<lparr>success = 8, failures = 2, last_used = 1000\<rparr>" 4600]
  by (simp add: pool_fresh_old_def new_stat_def)

text \<open>
  Claim C8 as stated fails for a rested proxy: three hours (10800 seconds) after its
  last use the proxy with 8 successes and 2 failures scores 1.1, above the fresh
  proxy's 1, and \<^verbatim>\<open>get_best_proxy\<close> returns it although the fresh proxy comes first
  in the pool.
\<close>

theorem fresh_score_counterexample:
  "proxy_score 11800 (proxy_stats pool_fresh_old) ''fresh'' = Inr 1 \<and>
   proxy_score 11800 (proxy_stats pool_fresh_old) ''old'' = Inr (11 / 10) \<and>
   \<not> ((1::real) \<ge> 11 / 10) \<and>
   fst (get_best_proxy 11800 pool_fresh_old) = Inr (Some ''old'')"
  by (simp add: get_best_proxy_def pool_fresh_old_def proxy_score_def sort_reverse_def new_stat_def Let_def)

section \<open>Properties of the resilient fetcher\<close>

declare request_loop.simps [simp del]

lemma get_best_proxy_usable:
  assumes "usable pm"
  shows "\<exists>best pm'. get_best_proxy now pm = (Inr (Some best), pm') \<and> best \<noteq> [] \<and>
           best \<in> set (proxies pm) \<and> usable pm' \<and> proxy_stats pm' = proxy_stats pm"
proof -
  from assms have ne: "proxies pm \<noteq> []" and sub: "set (proxies pm) \<subseteq> dom (proxy_stats pm)"
    and dm: "dom (proxy_stats pm) = set (proxies pm)" and nn: "[] \<notin> set (proxies pm)"
    by (auto simp add: usable_def pool_ok_def)
  show ?thesis
  proof (cases "filter (\<lambda>p. p \<notin> failed_proxies pm) (proxies pm) = []")
    case True
    from get_best_proxy_reset [OF ne True sub, of now] obtain best sorted_proxies where
      b: "get_best_proxy now pm = (Inr (Some best), pm\<lparr>failed_proxies := {}, proxies := sorted_proxies\<rparr>)"
        "best \<in> set (proxies pm)" "mset sorted_proxies = mset (proxies pm)"
      by blast
    from b(3) have "set sorted_proxies = set (proxies pm)" by (metis set_mset_mset)
    moreover from this ne have "sorted_proxies \<noteq> []" by auto
    ultimately have "usable (pm\<lparr>failed_proxies := {}, proxies := sorted_proxies\<rparr>)"
      using dm nn by (simp add: usable_def pool_ok_def)
    with b nn show ?thesis by auto
  next
    case False
    from get_best_proxy_available [OF False sub, of now] obtain best where
      "get_best_proxy now pm = (Inr (Some best), pm)" "best \<in> set (proxies pm)"
      by blast
    with assms nn show ?thesis by auto
  qed
qed

lemma mark_failure_usable: "usable pm \<Longrightarrow> usable (mark_failure proxy pm)"
  by (simp add: usable_def pool_ok_def mark_failure_proxies mark_failure_dom)

lemma mark_success_usable: "usable pm \<Longrightarrow> usable (mark_success now proxy pm)"
  by (simp add: usable_def pool_ok_def mark_success_proxies mark_success_dom)

lemma request_loop_step:
  assumes "retries < max_retries c"
    and "get_best_proxy (clock retries) (manager s) = (Inr (Some proxy), pm)"
    and "proxy \<noteq> []"
  shows "request_loop c send clock retries s =
     (case attempt (clock retries) proxy (send retries proxy) pm of
        (Some response, pm') \<Rightarrow>
          (Inr (Some response, Some proxy), s\<lparr>manager := pm', attempts := attempts s @ [proxy]\<rparr>)
      | (None, pm') \<Rightarrow>
          request_loop c send clock (retries + 1)
            (s\<lparr>manager := pm', attempts := attempts s @ [proxy],
               slept := slept s @ backoff c (retries + 1)\<rparr>))"
  using assms
  by (subst request_loop.simps) (simp add: loop_step_def split: prod.splits option.splits)

text \<open>
  Claim C5. In a loop iteration that obtained a proxy, the outcome of the request decides
  as follows. Status 200: \<^verbatim>\<open>mark_success\<close> on the proxy, and the call returns the
  response and the proxy at once. Status 404: the same, without a further attempt.
  Status 403, 429, 502, 503 or 504, any other status, and a timeout, connection error
  or other exception: \<^verbatim>\<open>mark_failure\<close> on the proxy, and the call goes on with the
  next iteration (counter incremented, after the backoff sleep if the counter is still
  below \<^verbatim>\<open>max_retries\<close>).
\<close>

theorem request_classifies_outcome:
  assumes "retries < max_retries c"
    and "get_best_proxy (clock retries) (manager s) = (Inr (Some proxy), pm)"
    and "proxy \<noteq> []"
  shows "(\<forall>response. send retries proxy = Response response \<and> status_code response = 200 \<longrightarrow>
            request_loop c send clock retries s =
              (Inr (Some response, Some proxy),
               s\<lparr>manager := mark_success (clock retries) proxy pm, attempts := attempts s @ [proxy]\<rparr>)) \<and>
         (\<forall>response. send retries proxy = Response response \<and> status_code response = 404 \<longrightarrow>
            request_loop c send clock retries s =
              (Inr (Some response, Some proxy),
               s\<lparr>manager := mark_success (clock retries) proxy pm, attempts := attempts s @ [proxy]\<rparr>)) \<and>
         (\<forall>response. send retries proxy = Response response \<and>
              status_code response \<in> {403, 429, 502, 503, 504} \<longrightarrow>
            request_loop c send clock retries s =
              request_loop c send clock (retries + 1)
                (s\<lparr>manager := mark_failure proxy pm, attempts := attempts s @ [proxy],
                   slept := slept s @ backoff c (retries + 1)\<rparr>)) \<and>
         (\<forall>response. send retries proxy = Response response \<and>
              status_code response \<notin> {200, 404, 403, 429, 502, 503, 504} \<longrightarrow>
            request_loop c send clock retries s =
              request_loop c send clock (retries + 1)
                (s\<lparr>manager := mark_failure proxy pm, attempts := attempts s @ [proxy],
                   slept := slept s @ backoff c (retries + 1)\<rparr>)) \<and>
         (send retries proxy \<in> {Timeout, ConnectionError, OtherException} \<longrightarrow>
            request_loop c send clock retries s =
              request_loop c send clock (retries + 1)
                (s\<lparr>manager := mark_failure proxy pm, attempts := attempts s @ [proxy],
                   slept := slept s @ backoff c (retries + 1)\<rparr>))"
proof (intro conjI allI impI)
  fix response
  assume "send retries proxy = Response response \<and> status_code response = 200"
  then show "request_loop c send clock retries s =
      (Inr (Some response, Some proxy),
       s\<lparr>manager := mark_success (clock retries) proxy pm, attempts := attempts s @ [proxy]\<rparr>)"
    using assms by (simp add: request_loop_step [of retries c clock s proxy pm send] attempt_def)
next
  fix response
  assume "send retries proxy = Response response \<and> status_code response = 404"
  then show "request_loop c send clock retries s =
      (Inr (Some response, Some proxy),
       s\<lparr>manager := mark_success (clock retries) proxy pm, attempts := attempts s @ [proxy]\<rparr>)"
    using assms by (simp add: request_loop_step [of retries c clock s proxy pm send] attempt_def)
next
  fix response
  assume "send retries proxy = Response response \<and>
    status_code response \<in> {403, 429, 502, 503, 504}"
  then show "request_loop c send clock retries s =
      request_loop c send clock (retries + 1)
        (s\<lparr>manager := mark_failure proxy pm, attempts := attempts s @ [proxy],
           slept := slept s @ backoff c (retries + 1)\<rparr>)"
    using assms by (auto simp add: request_loop_step [of retries c clock s proxy pm send] attempt_def)
next
  fix response
  assume "send retries proxy = Response response \<and>
    status_code response \<notin> {200, 404, 403, 429, 502, 503, 504}"
  then show "request_loop c send clock retries s =
      request_loop c send clock (retries + 1)
        (s\<lparr>manager := mark_failure proxy pm, attempts := attempts s @ [proxy],
           slept := slept s @ backoff c (retries + 1)\<rparr>)"
    using assms by (simp add: request_loop_step [of retries c clock s proxy pm send] attempt_def)
next
  assume "send retries proxy \<in> {Timeout, ConnectionError, OtherException}"
  then show "request_loop c send clock retries s =
      request_loop c send clock (retries + 1)
        (s\<lparr>manager := mark_failure proxy pm, attempts := attempts s @ [proxy],
           slept := slept s @ backoff c (retries + 1)\<rparr>)"
    using assms by (auto simp add: request_loop_step [of retries c clock s proxy pm send] attempt_def)
qed

lemma request_loop_all_503:
  assumes "\<forall>r p. \<exists>response. send r p = Response response \<and> status_code response = 503"
  shows "usable (manager s) \<Longrightarrow> n = max_retries c - retries \<Longrightarrow> retries \<le> max_retries c \<Longrightarrow>
         fst (request_loop c send clock retries s) = Inr (None, None) \<and>
         length (attempts (snd (request_loop c send clock retries s))) =
           length (attempts s) + (max_retries c - retries) \<and>
         slept (snd (request_loop c send clock retries s)) =
           slept s @ map (\<lambda>k. min (retry_delay c * 2 ^ (k - 1)) 30) [retries + 1..<max_retries c]"
proof (induction n arbitrary: retries s)
  case 0
  then have "\<not> retries < max_retries c" by simp
  then show ?case by (subst (1 2 3) request_loop.simps) simp
next
  case (Suc n)
  then have lt: "retries < max_retries c" by simp
  from get_best_proxy_usable [OF Suc.prems(1), of "clock retries"] obtain best pm' where
    b: "get_best_proxy (clock retries) (manager s) = (Inr (Some best), pm')" "best \<noteq> []"
      "usable pm'"
    by blast
  from assms obtain response where
    r: "send retries best = Response response" "status_code response = 503"
    by blast
  let ?s = "s\<lparr>manager := mark_failure best pm', attempts := attempts s @ [best],
               slept := slept s @ backoff c (retries + 1)\<rparr>"
  have st: "request_loop c send clock retries s = request_loop c send clock (retries + 1) ?s"
    using r lt b(1,2) by (simp add: request_loop_step [of retries c clock s best pm' send] attempt_def)
  have u: "usable (manager ?s)" using b(3) by (simp add: mark_failure_usable)
  have ih: "fst (request_loop c send clock (retries + 1) ?s) = Inr (None, None) \<and>
         length (attempts (snd (request_loop c send clock (retries + 1) ?s))) =
           length (attempts ?s) + (max_retries c - (retries + 1)) \<and>
         slept (snd (request_loop c send clock (retries + 1) ?s)) =
           slept ?s @ map (\<lambda>k. min (retry_delay c * 2 ^ (k - 1)) 30) [retries + 1 + 1..<max_retries c]"
    using Suc.prems lt by (intro Suc.IH [OF u]) auto
  have sl: "backoff c (retries + 1) @
        map (\<lambda>k. min (retry_delay c * 2 ^ (k - 1)) 30) [retries + 1 + 1..<max_retries c] =
      map (\<lambda>k. min (retry_delay c * 2 ^ (k - 1)) 30) [retries + 1..<max_retries c]"
    by (cases "retries + 1 < max_retries c") (simp_all add: backoff_def upt_conv_Cons)
  show ?case
    unfolding st using ih lt sl by simp
qed

text \<open>
  Claim C6. With a usable pool (non-empty, statistics for every address, no empty
  address) and a world in which every request is answered with status 503,
  \<^verbatim>\<open>request\<close> makes exactly \<^verbatim>\<open>max_retries\<close> attempts and returns
  \<^verbatim>\<open>(None, None)\<close>; the sleeps it inserts are, in order, \<open>min (retry_delay * 2^(k-1)) 30\<close>
  for \<open>k = 1, ..., max_retries - 1\<close> (the sleep after the \<open>k\<close>-th failed attempt, before
  attempt \<open>k + 1\<close>), so the total requested sleep is the sum of that capped series.
\<close>

theorem request_all_503:
  assumes "usable (manager s)"
    and "\<forall>r p. \<exists>response. send r p = Response response \<and> status_code response = 503"
  shows "fst (request c send clock s) = Inr (None, None) \<and>
         length (attempts (snd (request c send clock s))) = length (attempts s) + max_retries c \<and>
         slept (snd (request c send clock s)) =
           slept s @ map (\<lambda>k. min (retry_delay c * 2 ^ (k - 1)) 30) [1..<max_retries c] \<and>
         sum_list (slept (snd (request c send clock s))) =
           sum_list (slept s) + (\<Sum>k = 1..<max_retries c. min (retry_delay c * 2 ^ (k - 1)) 30)"
proof -
  have a: "fst (request c send clock s) = Inr (None, None) \<and>
         length (attempts (snd (request c send clock s))) = length (attempts s) + max_retries c \<and>
         slept (snd (request c send clock s)) =
           slept s @ map (\<lambda>k. min (retry_delay c * 2 ^ (k - 1)) 30) [1..<max_retries c]"
    using request_loop_all_503 [OF assms(2) assms(1), of "max_retries c" c 0 clock]
    by (simp add: request_def)
  then have "sum_list (slept (snd (request c send clock s))) =
      sum_list (slept s) + sum_list (map (\<lambda>k. min (retry_delay c * 2 ^ (k - 1)) 30) [1..<max_retries c])"
    by simp
  also have "sum_list (map (\<lambda>k. min (retry_delay c * 2 ^ (k - 1)) 30) [1..<max_retries c]) =
      (\<Sum>k = 1..<max_retries c. min (retry_delay c * 2 ^ (k - 1)) 30)"
    by (simp add: interv_sum_list_conv_sum_set_nat)
  finally show ?thesis using a by simp
qed

lemma pool_fresh_old_best:
  "get_best_proxy 4600 (manager fetch_start) = (Inr (Some ''fresh''), pool_fresh_old)"
  by (simp add: fetch_start_def get_best_proxy_def pool_fresh_old_def proxy_score_def
      sort_reverse_def new_stat_def Let_def)

text \<open>
  The five cases at the default client and a pool of two proxies, in the first
  iteration: the backoff before the second attempt is 2 seconds.
\<close>

theorem request_classifies_outcome_witness:
  "request_loop ProxyRotatingRequests_init (send_const (Response (status_only 200))) (\<lambda>r. 4600) 0 fetch_start =
     (Inr (Some (status_only 200), Some ''fresh''),
      fetch_start\<lparr>manager := mark_success 4600 ''fresh'' pool_fresh_old, attempts := [''fresh'']\<rparr>) \<and>
   request_loop ProxyRotatingRequests_init (send_const (Response (status_only 404))) (\<lambda>r. 4600) 0 fetch_start =
     (Inr (Some (status_only 404), Some ''fresh''),
      fetch_start\<lparr>manager := mark_success 4600 ''fresh'' pool_fresh_old, attempts := [''fresh'']\<rparr>) \<and>
   request_loop ProxyRotatingRequests_init (send_const (Response (status_only 503))) (\<lambda>r. 4600) 0 fetch_start =
     request_loop ProxyRotatingRequests_init (send_const (Response (status_only 503))) (\<lambda>r. 4600) 1
       (fetch_start\<lparr>manager := mark_failure ''fresh'' pool_fresh_old, attempts := [''fresh''], slept := [2]\<rparr>) \<and>
   request_loop ProxyRotatingRequests_init (send_const (Response (status_only 500))) (\<lambda>r. 4600) 0 fetch_start =
     request_loop ProxyRotatingRequests_init (send_const (Response (status_only 500))) (\<lambda>r. 4600) 1
       (fetch_start\<lparr>manager := mark_failure ''fresh'' pool_fresh_old, attempts := [''fresh''], slept := [2]\<rparr>) \<and>
   request_loop ProxyRotatingRequests_init (send_const Timeout) (\<lambda>r. 4600) 0 fetch_start =
     request_loop ProxyRotatingRequests_init (send_const Timeout) (\<lambda>r. 4600) 1
       (fetch_start\<lparr>manager := mark_failure ''fresh'' pool_fresh_old, attempts := [''fresh''], slept := [2]\<rparr>)"
proof -
  have a: "0 < max_retries ProxyRotatingRequests_init"
    by (simp add: ProxyRotatingRequests_init_def)
  have b: "get_best_proxy ((\<lambda>r. 4600) (0::nat)) (manager fetch_start) = (Inr (Some ''fresh''), pool_fresh_old)"
    by (simp add: pool_fresh_old_best)
  have c: "''fresh'' \<noteq> []" by simp
  have bo: "backoff ProxyRotatingRequests_init (Suc 0) = [2]"
    by (simp add: backoff_def ProxyRotatingRequests_init_def)
  have at: "attempts fetch_start = []" "slept fetch_start = []"
    by (simp_all add: fetch_start_def)
  note t = request_classifies_outcome [OF a b c]
  show ?thesis
    using t [of "send_const (Response (status_only 200))"]
      t [of "send_const (Response (status_only 404))"]
      t [of "send_const (Response (status_only 503))"]
      t [of "send_const (Response (status_only 500))"]
      t [of "send_const Timeout"]
    by (simp add: send_const_def status_only_def bo at)
qed

text \<open>With the default client (5 retries, base delay 2) the sleeps are 2, 4, 8 and 16 seconds.\<close>

theorem request_all_503_witness:
  "fst (request ProxyRotatingRequests_init (send_const (Response (status_only 503))) (\<lambda>r. 4600) fetch_start) =
     Inr (None, None) \<and>
   length (attempts (snd (request ProxyRotatingRequests_init (send_const (Response (status_only 503)))
     (\<lambda>r. 4600) fetch_start))) = 5 \<and>
   slept (snd (request ProxyRotatingRequests_init (send_const (Response (status_only 503)))
     (\<lambda>r. 4600) fetch_start)) = [2, 4, 8, 16]"
proof -
  have u: "usable (manager fetch_start)"
    by (auto simp add: usable_def pool_ok_def fetch_start_def pool_fresh_old_def)
  have r: "\<forall>r p. \<exists>response. send_const (Response (status_only 503)) r p = Response response \<and>
      status_code response = 503"
    by (simp add: send_const_def status_only_def)
  have l: "map (\<lambda>k. min (2 * 2 ^ (k - Suc 0)) 30) [Suc 0..<5] = [2, 4, 8, 16::real]"
    by (simp add: upt_conv_Cons eval_nat_numeral)
  show ?thesis
    using request_all_503 [OF u r, of ProxyRotatingRequests_init "\<lambda>r. 4600"]
    by (simp add: ProxyRotatingRequests_init_def fetch_start_def l)
qed

section \<open>Properties of the ledger\<close>

lemma save_processed_id_mono: "processed_ids s \<subseteq> processed_ids (save_processed_id ok paste_id s)"
  by (auto simp add: save_processed_id_def)

lemma save_processed_id_log:
  "requests_log (save_processed_id ok paste_id s) = requests_log s"
  by (simp add: save_processed_id_def)


lemma rate_limit_fields:
  "processed_ids (rate_limit w s) = processed_ids s"
  "requests_log (rate_limit w s) = requests_log s"
  "onion_links (rate_limit w s) = onion_links s"
  by (simp_all add: rate_limit_def Let_def)

lemma scrape_skips_processed:
  "paste_id \<in> processed_ids s \<Longrightarrow> scrape_single_paste w paste_id s = (None, s)"
  by (simp add: scrape_single_paste_def)

lemma scrape_mono: "processed_ids s \<subseteq> processed_ids (snd (scrape_single_paste w paste_id s))"
  using save_processed_id_mono
  by (auto simp add: scrape_single_paste_def Let_def rate_limit_fields save_processed_id_def
      split: outcome.splits)

lemma scrape_log:
  "\<exists>new. requests_log (snd (scrape_single_paste w paste_id s)) = requests_log s @ new \<and>
         fst ` set new \<subseteq> {paste_id} \<and> (paste_id \<in> processed_ids s \<longrightarrow> new = [])"
  by (auto simp add: scrape_single_paste_def Let_def rate_limit_fields save_processed_id_log
      split: outcome.splits)

lemma save_db_fields:
  "processed_ids (state_of (save_db dump ev held s)) = processed_ids s"
  "requests_log (state_of (save_db dump ev held s)) = requests_log s"
  "onion_links (state_of (save_db dump ev held s)) = onion_links s"
  by (simp_all add: save_db_def Let_def split: write_event.splits)

lemma add_entry_fields:
  "processed_ids (state_of (add_entry dump ev e s)) = processed_ids s"
  "requests_log (state_of (add_entry dump ev e s)) = requests_log s"
  by (simp_all add: add_entry_def Let_def save_db_fields split: option.splits)

lemma process_paste_mono:
  "processed_ids s \<subseteq> processed_ids (state_of (process_paste dump ev w paste_id s))"
proof -
  obtain r s1 where sc: "scrape_single_paste w paste_id s = (r, s1)" by force
  then have m: "processed_ids s \<subseteq> processed_ids s1"
    using scrape_mono [of s w paste_id] by simp
  show ?thesis
  proof (cases r)
    case None
    with sc m show ?thesis by (simp add: process_paste_def)
  next
    case (Some result)
    have "processed_ids (state_of (add_entry dump ev (Some result) s1)) = processed_ids s1"
      by (rule add_entry_fields)
    with sc m Some show ?thesis
      by (cases "add_entry dump ev (Some result) s1") (simp_all add: process_paste_def)
  qed
qed

lemma process_paste_log:
  "\<exists>new. requests_log (state_of (process_paste dump ev w paste_id s)) = requests_log s @ new \<and>
         fst ` set new \<subseteq> {paste_id} \<and> (paste_id \<in> processed_ids s \<longrightarrow> new = [])"
proof -
  obtain r s1 where sc: "scrape_single_paste w paste_id s = (r, s1)" by force
  from scrape_log [of w paste_id s] sc obtain new where
    n: "requests_log s1 = requests_log s @ new" "fst ` set new \<subseteq> {paste_id}"
      "paste_id \<in> processed_ids s \<longrightarrow> new = []"
    by auto
  have "requests_log (state_of (process_paste dump ev w paste_id s)) = requests_log s1"
  proof (cases r)
    case None
    with sc show ?thesis by (simp add: process_paste_def)
  next
    case (Some result)
    have "requests_log (state_of (add_entry dump ev (Some result) s1)) = requests_log s1"
      by (rule add_entry_fields)
    with sc Some show ?thesis
      by (cases "add_entry dump ev (Some result) s1") (simp_all add: process_paste_def)
  qed
  with n show ?thesis by auto
qed

lemma process_all_mono:
  "processed_ids s \<subseteq> processed_ids (state_of (process_all dump ev items s))"
proof (induction items arbitrary: s)
  case Nil
  show ?case by simp
next
  case (Cons item items)
  obtain w paste_id where item: "item = (w, paste_id)" by (cases item)
  show ?case
  proof (cases "is_running s")
    case False
    with item show ?thesis by simp
  next
    case True
    have m: "processed_ids s \<subseteq> processed_ids (state_of (process_paste dump ev w paste_id s))"
      by (rule process_paste_mono)
    show ?thesis
    proof (cases "process_paste dump ev w paste_id s")
      case (Returns s')
      with m Cons.IH [of s'] item True show ?thesis by auto
    qed (use m item True in simp_all)
  qed
qed

lemma process_all_log:
  "paste_id \<in> processed_ids s \<Longrightarrow>
   \<exists>new. requests_log (state_of (process_all dump ev items s)) = requests_log s @ new \<and>
         paste_id \<notin> fst ` set new"
proof (induction items arbitrary: s)
  case Nil
  show ?case by simp
next
  case (Cons item items)
  obtain w p where item: "item = (w, p)" by (cases item)
  show ?case
  proof (cases "is_running s")
    case False
    with item show ?thesis by simp
  next
    case True
    from process_paste_log [of dump ev w p s] obtain new where
      n: "requests_log (state_of (process_paste dump ev w p s)) = requests_log s @ new"
        "fst ` set new \<subseteq> {p}" "p \<in> processed_ids s \<longrightarrow> new = []"
      by blast
    have nn: "paste_id \<notin> fst ` set new"
      using n(2,3) Cons.prems by (cases "p = paste_id") auto
    show ?thesis
    proof (cases "process_paste dump ev w p s")
      case (Returns s')
      with process_paste_mono [of s dump ev w p] Cons.prems
      have "paste_id \<in> processed_ids s'" by auto
      from Cons.IH [OF this] obtain new' where
        "requests_log (state_of (process_all dump ev items s')) = requests_log s' @ new'"
        "paste_id \<notin> fst ` set new'"
        by blast
      with n(1) nn Returns item True show ?thesis
        by (intro exI [of _ "new @ new'"]) auto
    qed (use n(1) nn item True in auto)
  qed
qed

text \<open>
  Claim C2. No operation removes an identifier from \<^verbatim>\<open>processed_ids\<close>:
  \<^verbatim>\<open>_save_processed_id\<close> and \<^verbatim>\<open>scrape_single_paste\<close> can only add to it,
  \<^verbatim>\<open>add_entry\<close> and \<^verbatim>\<open>_save_db\<close> leave it as it is, and so it only grows over a
  scan pass. For an identifier that is in the ledger, \<^verbatim>\<open>scrape_single_paste\<close> returns
  \<^verbatim>\<open>None\<close> and leaves the whole state unchanged (no request is made), and a scan
  pass over any batch makes no request for it.
\<close>

theorem ledger_only_grows_and_skips:
  "processed_ids s \<subseteq> processed_ids (save_processed_id ok paste_id s) \<and>
   processed_ids s \<subseteq> processed_ids (snd (scrape_single_paste w paste_id s)) \<and>
   processed_ids (state_of (add_entry dump ev e s)) = processed_ids s \<and>
   processed_ids (state_of (save_db dump ev held s)) = processed_ids s \<and>
   processed_ids s \<subseteq> processed_ids (state_of (process_all dump ev items s)) \<and>
   (paste_id \<in> processed_ids s \<longrightarrow>
      scrape_single_paste w paste_id s = (None, s) \<and>
      (\<exists>new. requests_log (state_of (process_all dump ev items s)) = requests_log s @ new \<and>
             paste_id \<notin> fst ` set new))"
  using save_processed_id_mono [of s ok paste_id] scrape_mono [of s w paste_id]
    add_entry_fields(1) [of dump ev e s] save_db_fields(1) [of dump ev held s]
    process_all_mono [of s dump ev items] scrape_skips_processed [of paste_id s w]
    process_all_log [of paste_id s dump ev items]
  by blast

text \<open>
  A scraper with \<^verbatim>\<open>abc123\<close> in its ledger: scraping it changes nothing, and a pass
  over \<^verbatim>\<open>abc123\<close>, \<^verbatim>\<open>xyz789\<close>, \<^verbatim>\<open>abc123\<close> requests only \<^verbatim>\<open>xyz789\<close>.
\<close>

theorem ledger_only_grows_and_skips_witness:
  "scrape_single_paste world_absent ''abc123'' (running_scraper\<lparr>processed_ids := {''abc123''}\<rparr>) =
     (None, running_scraper\<lparr>processed_ids := {''abc123''}\<rparr>) \<and>
   requests_log (state_of (process_all dump_nothing Completes
       [(world_absent, ''abc123''), (world_absent, ''xyz789''), (world_absent, ''abc123'')]
       (running_scraper\<lparr>processed_ids := {''abc123''}\<rparr>))) =
     [(''xyz789'', ''https://pastebin.com/raw/xyz789'')]"
proof -
  let ?s = "running_scraper\<lparr>processed_ids := {''abc123''}\<rparr>"
  have "''abc123'' \<in> processed_ids ?s" by simp
  then have 1: "scrape_single_paste world_absent ''abc123'' ?s = (None, ?s)"
    using ledger_only_grows_and_skips [of ?s True "''abc123''" world_absent dump_nothing
        Completes None False "[]"]
    by blast
  have 2: "requests_log (state_of (process_all dump_nothing Completes
       [(world_absent, ''abc123''), (world_absent, ''xyz789''), (world_absent, ''abc123'')] ?s)) =
     [(''xyz789'', ''https://pastebin.com/raw/xyz789'')]"
    by (simp add: process_paste_def scrape_single_paste_def running_scraper_def new_scraper_def
        world_absent_def status_only_def rate_limit_def save_processed_id_def raw_url_def Let_def)
  from 1 2 show ?thesis by simp
qed

section \<open>Properties of the record store\<close>

lemma keeps_record_refl: "keeps_record a a"
  by (simp add: keeps_record_def)

lemma keeps_record_append: "keeps_record a (a\<lparr>onionLinks := onionLinks a @ extra\<rparr>)"
  by (simp add: keeps_record_def)

lemma list_all2_keeps_refl: "list_all2 keeps_record db db"
  by (simp add: list_all2_refl keeps_record_refl)

lemma merge_existing_None:
  "merge_existing entry db = None \<longleftrightarrow> pasteId entry \<notin> set (map pasteId db)"
  by (induction db) (auto simp add: Let_def split: option.splits)

lemma merge_existing_Some:
  "merge_existing entry db = Some db' \<Longrightarrow>
   list_all2 keeps_record db db' \<and> map pasteId db' = map pasteId db"
proof (induction db arbitrary: db')
  case Nil
  then show ?case by simp
next
  case (Cons existing rest)
  show ?case
  proof (cases "pasteId existing = pasteId entry")
    case True
    with Cons.prems show ?thesis
      by (auto simp add: Let_def keeps_record_append list_all2_keeps_refl)
  next
    case False
    with Cons.prems obtain rest' where
      "merge_existing entry rest = Some rest'" "db' = existing # rest'"
      by (auto split: option.splits)
    with Cons.IH [of rest'] show ?thesis by (simp add: keeps_record_refl)
  qed
qed


lemma add_entry_links_cases:
  "onion_links (state_of (add_entry dump ev (Some entry) s)) =
     (case merge_existing entry (onion_links s) of
        Some links' \<Rightarrow> links' | None \<Rightarrow> onion_links s @ [entry])"
  by (simp add: add_entry_def Let_def save_db_fields split: option.splits)




















lemma merge_existing_same:
  "R \<in> set db \<Longrightarrow> distinct (map pasteId db) \<Longrightarrow> merge_existing R db = Some db"
proof (induction db)
  case Nil
  then show ?case by simp
next
  case (Cons existing rest)
  show ?case
  proof (cases "existing = R")
    case True
    have "filter (\<lambda>l. onionLink l \<notin> set (map onionLink (onionLinks R))) (onionLinks R) = []"
      by (simp add: filter_empty_conv)
    with True show ?thesis by (simp add: Let_def)
  next
    case False
    with Cons.prems have "R \<in> set rest" by simp
    moreover from this Cons.prems(2) have "pasteId existing \<noteq> pasteId R" by force
    ultimately show ?thesis using Cons by simp
  qed
qed

text \<open>
  The merge logic where \<^verbatim>\<open>add_entry\<close> returns. In a store with one record per
  identifier, merging a stored record again returns with the state unchanged, so each of
  its link values is there as often as before (once, for a record whose links are
  unique by value).
\<close>

lemma add_entry_again_unchanged:
  assumes "R \<in> set (onion_links s)" and "distinct (map pasteId (onion_links s))"
  shows "add_entry dump ev (Some R) s = Returns s"
  using merge_existing_same [OF assms] by (simp add: add_entry_def)

lemma merge_existing_append_new:
  assumes "pasteId A \<notin> set (map pasteId db)" and "pasteId B = pasteId A"
    and "set (map onionLink (onionLinks A)) \<inter> set (map onionLink (onionLinks B)) = {}"
  shows "merge_existing B (db @ [A]) = Some (db @ [A\<lparr>onionLinks := onionLinks A @ onionLinks B\<rparr>])"
  using assms(1)
proof (induction db)
  case Nil
  have "filter (\<lambda>l. onionLink l \<notin> set (map onionLink (onionLinks A))) (onionLinks B) = onionLinks B"
    using assms(3) by (auto simp add: filter_id_conv)
  with assms(2) show ?case by (simp add: Let_def)
next
  case (Cons existing rest)
  then show ?case using assms(2) by auto
qed

text \<open>
  Two records with the same identifier and disjoint link values, merged into a store
  that has no record for the identifier: when the first merge returns (it does unless
  it triggers the periodic save), the second returns too and the store then holds one
  record for the identifier, with the links of the first followed by those of the
  second.
\<close>

lemma add_entry_disjoint_union:
  assumes "pasteId A \<notin> set (map pasteId (onion_links s))" and "pasteId B = pasteId A"
    and "set (map onionLink (onionLinks A)) \<inter> set (map onionLink (onionLinks B)) = {}"
    and "save_interval s \<noteq> 0"
    and "int (length (onion_links s) + 1) mod save_interval s \<noteq> 0"
  shows "add_entry dump ev (Some A) s = Returns (s\<lparr>onion_links := onion_links s @ [A]\<rparr>) \<and>
         add_entry dump ev (Some B) (s\<lparr>onion_links := onion_links s @ [A]\<rparr>) =
           Returns (s\<lparr>onion_links := onion_links s @ [A\<lparr>onionLinks := onionLinks A @ onionLinks B\<rparr>]\<rparr>)"
proof -
  have "merge_existing A (onion_links s) = None"
    using assms(1) by (simp add: merge_existing_None del: set_map)
  then have 1: "add_entry dump ev (Some A) s = Returns (s\<lparr>onion_links := onion_links s @ [A]\<rparr>)"
    using assms(4,5) by (simp add: add_entry_def Let_def)
  have 2: "add_entry dump ev (Some B) (s\<lparr>onion_links := onion_links s @ [A]\<rparr>) =
      Returns (s\<lparr>onion_links := onion_links s @ [A\<lparr>onionLinks := onionLinks A @ onionLinks B\<rparr>]\<rparr>)"
    using merge_existing_append_new [OF assms(1-3)] by (simp add: add_entry_def)
  from 1 2 show ?thesis by simp
qed

lemma merge_existing_store_ok:
  assumes "merge_existing entry db = Some db'" and "store_ok db" and "links_unique entry"
  shows "store_ok db'"
  using assms(1,2)
proof (induction db arbitrary: db')
  case Nil
  then show ?case by simp
next
  case (Cons existing rest)
  from merge_existing_Some [OF Cons.prems(1)]
  have ids: "map pasteId db' = map pasteId (existing # rest)" by simp
  show ?case
  proof (cases "pasteId existing = pasteId entry")
    case True
    let ?new = "filter (\<lambda>l. onionLink l \<notin> set (map onionLink (onionLinks existing))) (onionLinks entry)"
    have d1: "distinct (map onionLink ?new)"
      using assms(3) by (simp add: links_unique_def distinct_map_filter)
    have d2: "set (map onionLink (onionLinks existing)) \<inter> set (map onionLink ?new) = {}"
      by (auto simp add: image_iff)
    have "links_unique (existing\<lparr>onionLinks := onionLinks existing @ ?new\<rparr>)"
      using Cons.prems(2) d1 d2 by (simp add: links_unique_def store_ok_def)
    moreover have "db' = existing\<lparr>onionLinks := onionLinks existing @ ?new\<rparr> # rest"
      using True Cons.prems(1) by (simp add: Let_def)
    ultimately show ?thesis using Cons.prems(2) ids by (simp add: store_ok_def)
  next
    case False
    with Cons.prems(1) obtain rest' where
      r: "merge_existing entry rest = Some rest'" "db' = existing # rest'"
      by (auto split: option.splits)
    have "store_ok rest" using Cons.prems(2) by (simp add: store_ok_def)
    from Cons.IH [OF r(1) this] have "list_all links_unique rest'" by (simp add: store_ok_def)
    with Cons.prems(2) r(2) have 1: "list_all links_unique db'" by (simp add: store_ok_def)
    from Cons.prems(2) have "distinct (map pasteId (existing # rest))"
      unfolding store_ok_def by blast
    with ids have 2: "distinct (map pasteId db')" by metis
    from 1 2 show ?thesis unfolding store_ok_def by blast
  qed
qed

text \<open>
  The data-model invariant of the store (one record per identifier, link values unique
  within a record) is kept by every merge of a record whose own link values are
  unique, as those built by \<^verbatim>\<open>scrape_single_paste\<close> are.
\<close>

lemma add_entry_store_ok:
  assumes "store_ok (onion_links s)" and "links_unique entry"
  shows "store_ok (onion_links (state_of (add_entry dump ev (Some entry) s)))"
proof (cases "merge_existing entry (onion_links s)")
  case None
  then have "pasteId entry \<notin> set (map pasteId (onion_links s))"
    by (simp add: merge_existing_None del: set_map)
  with None assms show ?thesis
    by (simp add: add_entry_links_cases store_ok_def)
next
  case (Some links')
  with merge_existing_store_ok [OF Some assms] show ?thesis
    by (simp add: add_entry_links_cases)
qed

lemma scrape_links_unique:
  "fst (scrape_single_paste w paste_id s) = Some entry \<Longrightarrow> links_unique entry"
  by (auto simp add: scrape_single_paste_def Let_def links_unique_def extract_onion_links_def
      comp_def split: outcome.splits if_splits)

lemma add_entry_again_once:
  assumes "R \<in> set (onion_links s)" and "store_ok (onion_links s)"
    and "v \<in> set (map onionLink (onionLinks R))"
  shows "add_entry dump ev (Some R) s = Returns s \<and>
         count_list (map onionLink (onionLinks R)) v = 1"
proof -
  from assms(2) have d: "distinct (map pasteId (onion_links s))"
    by (simp add: store_ok_def)
  from assms(1,2) have "links_unique R"
    by (simp add: store_ok_def list_all_iff)
  then have "count (mset (map onionLink (onionLinks R))) v = 1"
    using assms(3) unfolding links_unique_def distinct_count_atmost_1 by metis
  then have "count_list (map onionLink (onionLinks R)) v = 1"
    by (simp only: count_mset)
  with add_entry_again_unchanged [OF assms(1) d] show ?thesis by simp
qed

lemma add_entry_blocks:
  assumes "pasteId A \<notin> set (map pasteId (onion_links s))"
    and "save_interval s \<noteq> 0"
    and "int (length (onion_links s) + 1) mod save_interval s = 0"
  shows "add_entry dump ev (Some A) s = Blocks (s\<lparr>onion_links := onion_links s @ [A]\<rparr>)"
proof -
  have "merge_existing A (onion_links s) = None"
    using assms(1) by (simp add: merge_existing_None del: set_map)
  then show ?thesis
    using assms(2,3) by (simp add: add_entry_def save_db_def Let_def)
qed

text \<open>
  Claim C1 at the input where it fails. With \<^verbatim>\<open>save_interval\<close> 1 and an empty store,
  and in the same way with the default interval of 100 and 99 stored records, merging
  a new record appends it and then calls \<^verbatim>\<open>_save_db\<close> while \<^verbatim>\<open>add_entry\<close> still holds
  the lock: the call blocks forever, with only the first record's link in the store, so
  the second record is never merged.
\<close>

theorem add_entry_blocks_on_periodic_save:
  "add_entry dump_nothing Completes (Some record_a) (running_scraper\<lparr>save_interval := 1\<rparr>) =
     Blocks (running_scraper\<lparr>save_interval := 1, onion_links := [record_a]\<rparr>) \<and>
   add_entry dump_nothing Completes (Some record_a) (running_scraper\<lparr>onion_links := store_99\<rparr>) =
     Blocks (running_scraper\<lparr>onion_links := store_99 @ [record_a]\<rparr>)"
proof -
  have 1: "add_entry dump_nothing Completes (Some record_a) (running_scraper\<lparr>save_interval := 1\<rparr>) =
     Blocks (running_scraper\<lparr>save_interval := 1, onion_links := [record_a]\<rparr>)"
    by (simp add: add_entry_def save_db_def running_scraper_def new_scraper_def Let_def)
  let ?s = "running_scraper\<lparr>onion_links := store_99\<rparr>"
  have a: "pasteId record_a \<notin> set (map pasteId (onion_links ?s))"
    by (auto simp add: record_a_def store_99_def)
  have b: "save_interval ?s \<noteq> 0" "int (length (onion_links ?s) + 1) mod save_interval ?s = 0"
    by (simp_all add: running_scraper_def new_scraper_def store_99_def)
  have 2: "add_entry dump_nothing Completes (Some record_a) ?s =
      Blocks (?s\<lparr>onion_links := onion_links ?s @ [record_a]\<rparr>)"
    using a b by (rule add_entry_blocks)
  from 1 2 show ?thesis by simp
qed

section \<open>Properties of the flush\<close>

text \<open>
  Claim C7, as the code has it. \<^verbatim>\<open>_save_db\<close> has no temporary file and no rename: it
  opens the backing file for writing, which truncates it, and writes the text of the
  in-memory database into that same file. With the lock free: when the write completes
  the file holds the whole text of the in-memory database; a process killed after
  \<open>k\<close> characters reached the file leaves exactly the first \<open>k\<close> characters of the new
  text in it (nothing of the old content, and an empty file for \<open>k = 0\<close>), and so does
  a write that raises after \<open>k\<close> characters; a kill before \<^verbatim>\<open>open\<close>, or an
  \<^verbatim>\<open>open\<close> that raises, leaves the file as it was. Called with the lock held it
  blocks. Whatever happens, the in-memory state is not changed.
\<close>

theorem save_db_in_place:
  "(state_of (save_db dump ev held s))\<lparr>db_file := db_file s\<rparr> = s \<and>
   save_db dump Completes False s =
     Returns (s\<lparr>db_file := Some (dump (onion_links s) (scan_sessions s))\<rparr>) \<and>
   save_db dump KilledBeforeOpen False s = Killed s \<and>
   save_db dump (KilledAfter k) False s =
     Killed (s\<lparr>db_file := Some (take k (dump (onion_links s) (scan_sessions s)))\<rparr>) \<and>
   save_db dump OpenFails False s = Returns s \<and>
   save_db dump (WriteFails k) False s =
     Returns (s\<lparr>db_file := Some (take k (dump (onion_links s) (scan_sessions s)))\<rparr>) \<and>
   save_db dump ev True s = Blocks s"
proof (intro conjI)
  show "(state_of (save_db dump ev held s))\<lparr>db_file := db_file s\<rparr> = s"
    by (cases ev) (simp_all add: save_db_def Let_def)
qed (simp_all add: save_db_def Let_def)

text \<open>
  Claim C7 as stated fails. The backing file holds the complete text of the (empty)
  database; the database is flushed again and the process is killed after \<^verbatim>\<open>open\<close>
  has truncated the file and before any character reached it. The file is then empty:
  it holds neither its old content nor the new text.
\<close>

theorem save_db_killed_counterexample:
  "db_file (new_scraper\<lparr>db_file := Some json_empty_db\<rparr>) = Some json_empty_db \<and>
   save_db dump_empty (KilledAfter 0) False (new_scraper\<lparr>db_file := Some json_empty_db\<rparr>) =
     Killed (new_scraper\<lparr>db_file := Some []\<rparr>) \<and>
   dump_empty (onion_links new_scraper) (scan_sessions new_scraper) = json_empty_db \<and>
   json_empty_db \<noteq> []"
  by (simp add: save_db_def dump_empty_def json_empty_db_def new_scraper_def)

end
